theory Spec2Isabelle
  imports Main "HOL-Library.Word"
begin

unbundle bit_operations_syntax

section \<open>helpers/String.ts\<close>

text \<open>
  A JavaScript string is a sequence of 16-bit code units. \<open>charCodeAt\<close> reads one as a
  number and yields NaN (here \<open>None\<close>) outside the string.
\<close>

type_synonym js_string = "16 word list"

definition charCodeAt :: "js_string \<Rightarrow> nat \<Rightarrow> nat option" where
  "charCodeAt s i = (if i < length s then Some (unat (s ! i)) else None)"

text \<open>The relational operator \<open><\<close> on numbers: every comparison with NaN is false.\<close>

fun num_lt :: "nat option \<Rightarrow> nat option \<Rightarrow> bool" where
  "num_lt (Some a) (Some b) = (a < b)"
| "num_lt _ _ = False"

subsection \<open>hash\<close>

text \<open>
  The numbers of \<open>hash\<close> are integer-valued and far below \<open>2 ^ 53\<close>, so the double
  arithmetic of \<open>-\<close> and \<open>+\<close> is exact and modelled on \<open>int\<close>. \<open>x << n\<close> and
  \<open>x | y\<close> first convert their operands to signed 32-bit integers.
\<close>

definition toInt32 :: "int \<Rightarrow> int" where
  "toInt32 x = sint (word_of_int x :: 32 word)"

definition shiftLeft :: "int \<Rightarrow> nat \<Rightarrow> int" where
  "shiftLeft x n = sint (push_bit (n mod 32) (word_of_int x :: 32 word))"

definition bitOr :: "int \<Rightarrow> int \<Rightarrow> int" where
  "bitOr x y = sint ((word_of_int x :: 32 word) OR (word_of_int y :: 32 word))"

text \<open>One pass of the loop body; a NaN char code would make the sum NaN, and \<open>NaN | 0\<close> is 0.\<close>

definition hash_step :: "int \<Rightarrow> nat option \<Rightarrow> int" where
  "hash_step resultHash currentCharCode =
     (case currentCharCode of
        None \<Rightarrow> 0
      | Some c \<Rightarrow> bitOr (shiftLeft resultHash 5 - resultHash + int c) 0)"

function hash_loop :: "js_string \<Rightarrow> nat \<Rightarrow> int \<Rightarrow> int" where
  "hash_loop input i resultHash =
     (if i < length input
      then hash_loop input (i + 1) (hash_step resultHash (charCodeAt input i))
      else resultHash)"
  by pat_completeness auto
termination
  by (relation "measure (\<lambda>(input, i, resultHash). length input - i)") auto

declare hash_loop.simps [simp del]

text \<open>\<open>Number.prototype.toString\<close> on an integer: its decimal digits, with a leading minus sign.\<close>

definition digit_char :: "nat \<Rightarrow> char" where
  "digit_char d = ''0123456789'' ! d"

function show_nat :: "nat \<Rightarrow> string" where
  "show_nat n = (if n < 10 then [digit_char n] else show_nat (n div 10) @ [digit_char (n mod 10)])"
  by pat_completeness auto
termination
  by (relation "measure id") auto

declare show_nat.simps [simp del]

definition number_toString :: "int \<Rightarrow> string" where
  "number_toString x = (if x < 0 then CHR ''-'' # show_nat (nat (- x)) else show_nat (nat x))"

definition hash :: "js_string \<Rightarrow> string" where
  "hash input = number_toString (hash_loop input 0 0)"

text \<open>
  The fold in the words of the specification: \<open>32 * h - h + c\<close>, wrapped modulo
  \<open>2 ^ 32\<close> into the signed range.
\<close>

definition wrap32 :: "int \<Rightarrow> int" where
  "wrap32 x = (x + 2 ^ 31) mod 2 ^ 32 - 2 ^ 31"

definition hash_fold :: "js_string \<Rightarrow> int" where
  "hash_fold input = fold (\<lambda>c h. wrap32 (32 * h - h + int (unat c))) input 0"

subsection \<open>localeCompare\<close>

text \<open>The \<open>for\<close> loop; \<open>None\<close> when it runs to its end without returning.\<close>

function localeCompare_loop :: "js_string \<Rightarrow> js_string \<Rightarrow> nat \<Rightarrow> nat \<Rightarrow> int option" where
  "localeCompare_loop str1 str2 minLength i =
     (if i < minLength
      then (let char1 = charCodeAt str1 i; char2 = charCodeAt str2 i
            in if num_lt char1 char2 then Some (- 1)
               else if num_lt char2 char1 then Some 1
               else localeCompare_loop str1 str2 minLength (i + 1))
      else None)"
  by pat_completeness auto
termination
  by (relation "measure (\<lambda>(str1, str2, minLength, i). minLength - i)") auto

declare localeCompare_loop.simps [simp del]

definition localeCompare :: "js_string option \<Rightarrow> js_string option \<Rightarrow> int" where
  "localeCompare str1 str2 =
     (if str1 = None \<and> str2 = None then 0
      else if str1 = None then 1
      else if str2 = None then - 1
      else (let s1 = the str1; s2 = the str2;
                minLength = min (length s1) (length s2)
            in case localeCompare_loop s1 s2 minLength 0 of
                 Some r \<Rightarrow> r
               | None \<Rightarrow>
                   if length s1 < length s2 then - 1
                   else if length s1 > length s2 then 1
                   else 0))"

text \<open>Lexicographic comparison of two code-unit sequences, by structural recursion.\<close>

fun lex_compare :: "js_string \<Rightarrow> js_string \<Rightarrow> int" where
  "lex_compare [] [] = 0"
| "lex_compare [] (y # ys) = - 1"
| "lex_compare (x # xs) [] = 1"
| "lex_compare (x # xs) (y # ys) =
     (if x < y then - 1 else if y < x then 1 else lex_compare xs ys)"


section \<open>The data of actions/expand.ts\<close>

text \<open>A thrown value.\<close>

datatype exn = Exn string

text \<open>
  An entry of the catalog, as \<open>expand.ts\<close> reads it: \<open>p.name\<close> is the storage name
  and \<open>p.defaultPath\<close> may be undefined.
\<close>

record StoredAsset =
  name :: string
  defaultPath :: "string option"

text \<open>
  Modelled from the spec: the class \<open>Asset\<close> (assets/Asset) is not among the sources.
  Section 3 gives an identifier a non-empty name, a version of up to three components, each
  present or absent, and an optional path.
\<close>

record Version =
  major :: "nat option"
  minor :: "nat option"
  patch :: "nat option"

record Asset =
  name :: string
  version :: Version
  path :: "string option"

text \<open>
  Modelled from the spec: the text of a version in a template literal. A precise version
  reads \<open>major.minor.patch\<close> (section 4.2); a version without components reads as the
  empty text, which is falsy.
\<close>

definition version_toString :: "Version \<Rightarrow> string" where
  "version_toString v =
     (case major v of
        None \<Rightarrow> ''''
      | Some a \<Rightarrow> show_nat a @
          (case minor v of
             None \<Rightarrow> ''''
           | Some b \<Rightarrow> ''.'' @ show_nat b @
               (case patch v of None \<Rightarrow> '''' | Some c \<Rightarrow> ''.'' @ show_nat c)))"

text \<open>
  Modelled from the spec: \<open>isVersionPreciseEnough\<close> (helpers/Version) is not among the
  sources. Section 4.6, step 2: all three components are present.
\<close>

definition isVersionPreciseEnough :: "Asset \<Rightarrow> bool" where
  "isVersionPreciseEnough a =
     (major (version a) \<noteq> None \<and> minor (version a) \<noteq> None \<and> patch (version a) \<noteq> None)"

text \<open>Truthiness of a string that may be undefined, and its text in a template literal.\<close>

definition truthy :: "string option \<Rightarrow> bool" where
  "truthy v = (case v of None \<Rightarrow> False | Some s \<Rightarrow> s \<noteq> '''')"

definition template :: "string option \<Rightarrow> string" where
  "template v = (case v of None \<Rightarrow> ''undefined'' | Some s \<Rightarrow> s)"

text \<open>
  The modules \<open>expand.ts\<close> imports and \<open>process.env\<close>. None of them is among the
  sources, so each is a parameter; a call that may throw returns a sum. The parser of storage
  names, the comparator and the predicate are taken to return.
\<close>

record Imports =
  parseFromUrl :: "string \<Rightarrow> exn + Asset"
  parseFromStorageName :: "string \<Rightarrow> Asset"
  compare :: "Asset \<Rightarrow> Asset \<Rightarrow> int"
  matches :: "Asset \<Rightarrow> Asset \<Rightarrow> bool"
  serializeAssetName :: "Asset option \<Rightarrow> exn + string"
  allStoredAssets :: "exn + StoredAsset list"
  VOLUME_MOUNT_PATH :: string
  isCssURI :: "string \<Rightarrow> bool"
  isJsURI :: "string \<Rightarrow> bool"
  minifyCSS :: "string \<Rightarrow> exn + string"
  minifyJS :: "string \<Rightarrow> exn + string"
  resolveNonMinifiedURI :: "string \<Rightarrow> exn + string"
  readFile :: "string \<Rightarrow> exn + string"
  etag :: "string \<Rightarrow> exn + string"
  A7_CORS_ALL :: "string option"
  A7_PATH_AUTO_RESOLVE :: "string option"

text \<open>
  The request object: what \<open>expand\<close> reads of it (\<open>r.uri\<close>, \<open>r.variables.serveFiles\<close>)
  and what it writes (\<open>r.headersOut\<close>, and the calls of \<open>r.return\<close> and
  \<open>r.internalRedirect\<close>, kept in the order they are made). The calls of \<open>r.log\<close>,
  \<open>r.warn\<close> and \<open>r.error\<close> have no part in the response and are left out. The methods
  of the request object are taken to return.
\<close>

datatype Response = Return nat string | InternalRedirect string

record NginxHTTPRequest =
  uri :: string
  serveFiles :: "string option"
  headersOut :: "string \<rightharpoonup> string"
  responses :: "Response list"

definition r_return :: "nat \<Rightarrow> string \<Rightarrow> NginxHTTPRequest \<Rightarrow> NginxHTTPRequest" where
  "r_return status body r = r\<lparr>responses := responses r @ [Return status body]\<rparr>"

definition r_internalRedirect :: "string \<Rightarrow> NginxHTTPRequest \<Rightarrow> NginxHTTPRequest" where
  "r_internalRedirect target r = r\<lparr>responses := responses r @ [InternalRedirect target]\<rparr>"

subsection \<open>Array primitives\<close>

text \<open>
  \<open>Array.prototype.sort\<close> with a comparator is stable: \<open>x\<close> goes behind \<open>y\<close> only when
  \<open>cmp x y\<close> is positive.
\<close>

fun insort_cmp :: "('a \<Rightarrow> 'a \<Rightarrow> int) \<Rightarrow> 'a \<Rightarrow> 'a list \<Rightarrow> 'a list" where
  "insort_cmp cmp x [] = [x]"
| "insort_cmp cmp x (y # ys) = (if cmp x y \<le> 0 then x # y # ys else y # insort_cmp cmp x ys)"

definition array_sort :: "('a \<Rightarrow> 'a \<Rightarrow> int) \<Rightarrow> 'a list \<Rightarrow> 'a list" where
  "array_sort cmp xs = foldr (insort_cmp cmp) xs []"

text \<open>\<open>xs[i]\<close> is undefined outside the array.\<close>

definition array_index :: "'a list \<Rightarrow> nat \<Rightarrow> 'a option" where
  "array_index xs i = (if i < length xs then Some (xs ! i) else None)"

definition endsWith :: "string \<Rightarrow> string \<Rightarrow> bool" where
  "endsWith s suffix = (length suffix \<le> length s \<and> drop (length s - length suffix) s = suffix)"

section \<open>actions/expand.ts\<close>

definition findBestMatchingCandidate :: "Imports \<Rightarrow> Asset \<Rightarrow> exn + Asset option" where
  "findBestMatchingCandidate env requestedAsset =
     (case allStoredAssets env of
        Inl e \<Rightarrow> Inl e
      | Inr all \<Rightarrow>
          (let assets = map (parseFromStorageName env) (map StoredAsset.name all);
               eligibleAssetNamesOrdered =
                 array_sort (compare env)
                   (filter (\<lambda>p. Asset.name p = Asset.name requestedAsset) assets);
               candidates = filter (\<lambda>asset. matches env requestedAsset asset) eligibleAssetNamesOrdered;
               bestMatch = array_index candidates 0
           in Inr bestMatch))"

definition computeUriPath :: "Imports \<Rightarrow> Asset \<Rightarrow> Asset option \<Rightarrow> exn + string" where
  "computeUriPath env requestedAsset candidateAsset =
     (case serializeAssetName env candidateAsset of
        Inl e \<Rightarrow> Inl e
      | Inr assetStorageName \<Rightarrow>
          (case allStoredAssets env of
             Inl e \<Rightarrow> Inl e
           | Inr all \<Rightarrow>
               (let defaultPath =
                      (case find (\<lambda>p. StoredAsset.name p = assetStorageName) all of
                         None \<Rightarrow> None
                       | Some p \<Rightarrow> StoredAsset.defaultPath p);
                    hasPath = (truthy (path requestedAsset) \<or> truthy defaultPath)
                in if \<not> hasPath then Inr ''''
                   else Inr (''/'' @ assetStorageName @
                          (if truthy (path requestedAsset) then the (path requestedAsset)
                           else ''/'' @ template defaultPath)))))"

definition assetDefaultPath :: "Imports \<Rightarrow> Asset \<Rightarrow> exn + string" where
  "assetDefaultPath env requestedAsset =
     (if Asset.name requestedAsset = '''' \<or> version_toString (version requestedAsset) = ''''
      then Inr ''''
      else (case allStoredAssets env of
              Inl e \<Rightarrow> Inl e
            | Inr all \<Rightarrow>
                (let found =
                       (case find (\<lambda>p. StoredAsset.name p =
                                     Asset.name requestedAsset @ ''@'' @
                                     version_toString (version requestedAsset)) all of
                          None \<Rightarrow> None
                        | Some p \<Rightarrow> StoredAsset.defaultPath p)
                 in Inr (if truthy found then the found else ''''))))"

definition handleNotFound :: "NginxHTTPRequest \<Rightarrow> NginxHTTPRequest" where
  "handleNotFound r = r_internalRedirect ''/404.html'' r"

definition redirectOrResolve :: "Imports \<Rightarrow> string \<Rightarrow> NginxHTTPRequest \<Rightarrow> NginxHTTPRequest" where
  "redirectOrResolve env target r =
     (let r1 = (if truthy (A7_CORS_ALL env)
                then r\<lparr>headersOut := (headersOut r)
                        (''access-control-allow-origin'' \<mapsto> ''*'',
                         ''access-control-allow-headers'' \<mapsto> ''*'')\<rparr>
                else r)
      in if truthy (A7_PATH_AUTO_RESOLVE env)
         then r_internalRedirect target r1
         else r_return 302 target r1)"

text \<open>The regular expression \<open>/\.min\.(?:js|mjs|css)$/\<close>.\<close>

definition isMinificationRequested :: "string \<Rightarrow> bool" where
  "isMinificationRequested u =
     (endsWith u ''.min.js'' \<or> endsWith u ''.min.mjs'' \<or> endsWith u ''.min.css'')"

text \<open>
  The block under \<open>if (isMinificationRequested)\<close>. Both reads sit in a \<open>try\<close> of their
  own that ignores the exception and leaves \<open>source\<close> as it was.
\<close>

definition expand_minification :: "Imports \<Rightarrow> NginxHTTPRequest \<Rightarrow> (exn + unit) \<times> NginxHTTPRequest" where
  "expand_minification env r =
     (let source = (case readFile env (VOLUME_MOUNT_PATH env @ uri r) of
                      Inl e \<Rightarrow> None
                    | Inr content \<Rightarrow> Some content)
      in if truthy source then (Inr (), r_return 200 (the source) r)
         else
           (let source2 =
                  (case resolveNonMinifiedURI env (uri r) of
                     Inl e \<Rightarrow> source
                   | Inr sourceFilePath \<Rightarrow>
                       (case readFile env (VOLUME_MOUNT_PATH env @ sourceFilePath) of
                          Inl e \<Rightarrow> source
                        | Inr content \<Rightarrow> Some content));
                text = (if truthy source2 then the source2 else '''')
            in case (if isJsURI env (uri r) then minifyJS env text
                     else if isCssURI env (uri r) then minifyCSS env text
                     else Inr text) of
                 Inl e \<Rightarrow> (Inl e, r)
               | Inr minified \<Rightarrow>
                   (let r1 = r\<lparr>headersOut := (headersOut r)(''cache-tag'' \<mapsto> ''minified asset'')\<rparr>
                    in case etag env minified of
                         Inl e \<Rightarrow> (Inl e, r1)
                       | Inr tag \<Rightarrow>
                           (Inr (),
                            r_return 200 minified
                              (r1\<lparr>headersOut := (headersOut r1)(''etag'' \<mapsto> tag)\<rparr>)))))"

text \<open>The body of the \<open>try\<close> block: the exception that leaves it, if any, and the request.\<close>

definition expand_try :: "Imports \<Rightarrow> NginxHTTPRequest \<Rightarrow> (exn + unit) \<times> NginxHTTPRequest" where
  "expand_try env r =
     (case parseFromUrl env (uri r) of
        Inl e \<Rightarrow> (Inl e, r)
      | Inr requestedAsset \<Rightarrow>
          (let isVersionPrecise = isVersionPreciseEnough requestedAsset;
               isURIComplete = (truthy (path requestedAsset) \<and> isVersionPrecise);
               needsRedirect = (\<not> isURIComplete)
           in if \<not> needsRedirect then
                (case (if isMinificationRequested (uri r) then expand_minification env r
                       else (Inr (), r)) of
                   (Inl e, r1) \<Rightarrow> (Inl e, r1)
                 | (Inr u, r1) \<Rightarrow>
                     if truthy (serveFiles r1) then
                       (case readFile env (VOLUME_MOUNT_PATH env @ uri r1) of
                          Inl e \<Rightarrow> (Inl e, r1)
                        | Inr content \<Rightarrow> (Inr (), r_return 200 content r1))
                     else (Inr (), handleNotFound r1))
              else if \<not> isVersionPrecise then
                (case findBestMatchingCandidate env requestedAsset of
                   Inl e \<Rightarrow> (Inl e, r)
                 | Inr candidateAsset \<Rightarrow>
                     (case computeUriPath env requestedAsset candidateAsset of
                        Inl e \<Rightarrow> (Inl e, r)
                      | Inr newPath \<Rightarrow>
                          if newPath = '''' then (Inr (), handleNotFound r)
                          else (Inr (), redirectOrResolve env newPath r)))
              else if \<not> truthy (path requestedAsset) then
                (case assetDefaultPath env requestedAsset of
                   Inl e \<Rightarrow> (Inl e, r)
                 | Inr assetPath \<Rightarrow>
                     if assetPath = '''' then (Inr (), handleNotFound r)
                     else (Inr (),
                           redirectOrResolve env
                             (''/'' @ Asset.name requestedAsset @ ''@'' @
                              version_toString (version requestedAsset) @ ''/'' @ assetPath) r))
              else (Inr (), handleNotFound r)))"

text \<open>
  \<open>expand\<close>: the \<open>catch\<close> clause answers every exception of the body with
  \<open>handleNotFound\<close>. The first component is the exception that leaves \<open>expand\<close>.
\<close>

definition expand :: "Imports \<Rightarrow> NginxHTTPRequest \<Rightarrow> (exn + unit) \<times> NginxHTTPRequest" where
  "expand env r =
     (case expand_try env r of
        (Inl e, r1) \<Rightarrow> (Inr (), handleNotFound r1)
      | (Inr u, r1) \<Rightarrow> (Inr (), r1))"

subsection \<open>The resolver over a store of arrays\<close>

text \<open>
  Arrays are objects: \<open>map\<close> and \<open>filter\<close> allocate a new array, \<open>sort\<close> reorders the
  array it is called on and returns that same array. The store is the list of all arrays
  allocated so far; a reference is an index into it.
\<close>

datatype array = StoredAssetArray "StoredAsset list" | StringArray "string list" | AssetArray "Asset list"

type_synonym store = "array list"

definition alloc :: "array \<Rightarrow> store \<Rightarrow> nat \<times> store" where
  "alloc a st = (length st, st @ [a])"

definition strings_at :: "store \<Rightarrow> nat \<Rightarrow> string list" where
  "strings_at st ref = (if ref < length st then (case st ! ref of StringArray xs \<Rightarrow> xs | _ \<Rightarrow> []) else [])"

definition assets_at :: "store \<Rightarrow> nat \<Rightarrow> Asset list" where
  "assets_at st ref = (if ref < length st then (case st ! ref of AssetArray xs \<Rightarrow> xs | _ \<Rightarrow> []) else [])"

text \<open>
  \<open>findBestMatchingCandidate\<close> once more, with the catalog given as the reference \<open>all\<close>
  that \<open>allStoredAssets\<close> returns; \<open>None\<close> when \<open>all\<close> is not a reference to an array of
  catalog entries.
\<close>

definition findBestMatchingCandidate_store ::
  "Imports \<Rightarrow> Asset \<Rightarrow> nat \<Rightarrow> store \<Rightarrow> (Asset option \<times> store) option" where
  "findBestMatchingCandidate_store env requestedAsset all st =
     (if all < length st then
        (case st ! all of
           StoredAssetArray ps \<Rightarrow>
             (let (names, st1) = alloc (StringArray (map StoredAsset.name ps)) st;
                  (assets, st2) =
                    alloc (AssetArray (map (parseFromStorageName env) (strings_at st1 names))) st1;
                  (eligible, st3) =
                    alloc (AssetArray (filter (\<lambda>p. Asset.name p = Asset.name requestedAsset)
                                         (assets_at st2 assets))) st2;
                  st4 = st3[eligible := AssetArray (array_sort (compare env) (assets_at st3 eligible))];
                  eligibleAssetNamesOrdered = eligible;
                  (candidates, st5) =
                    alloc (AssetArray (filter (\<lambda>asset. matches env requestedAsset asset)
                                         (assets_at st4 eligibleAssetNamesOrdered))) st4;
                  bestMatch = array_index (assets_at st5 candidates) 0
              in Some (bestMatch, st5))
         | _ \<Rightarrow> None)
      else None)"

section \<open>The collaborators as the specification describes them\<close>

text \<open>
  Modelled from the spec: \<open>AssetComparator\<close> is not among the sources. Sections 4.1 and
  4.3: descending by major, then minor, then patch, an absent component after any present one.
  A negative result puts the first asset first.
\<close>

fun compare_component :: "nat option \<Rightarrow> nat option \<Rightarrow> int" where
  "compare_component None None = 0"
| "compare_component None (Some y) = 1"
| "compare_component (Some x) None = - 1"
| "compare_component (Some x) (Some y) = (if y < x then - 1 else if x < y then 1 else 0)"

definition spec_compare :: "Asset \<Rightarrow> Asset \<Rightarrow> int" where
  "spec_compare a b =
     (let c1 = compare_component (major (version a)) (major (version b));
          c2 = compare_component (minor (version a)) (minor (version b));
          c3 = compare_component (patch (version a)) (patch (version b))
      in if c1 \<noteq> 0 then c1 else if c2 \<noteq> 0 then c2 else c3)"

text \<open>
  Modelled from the spec: \<open>AssetPredicate\<close> is not among the sources. Section 4.4: every
  present component of the requested version equals the candidate's.
\<close>

definition component_matches :: "nat option \<Rightarrow> nat option \<Rightarrow> bool" where
  "component_matches requested candidate =
     (case requested of None \<Rightarrow> True | Some x \<Rightarrow> candidate = Some x)"

definition spec_matches :: "Asset \<Rightarrow> Asset \<Rightarrow> bool" where
  "spec_matches requestedAsset asset =
     (component_matches (major (version requestedAsset)) (major (version asset))
      \<and> component_matches (minor (version requestedAsset)) (minor (version asset))
      \<and> component_matches (patch (version requestedAsset)) (patch (version asset)))"

text \<open>
  Modelled from the spec: \<open>AssetNameSerializer\<close> is not among the sources. Section 4.2:
  \<open>name@major.minor.patch\<close>, failing on an identifier with an absent component. Handed
  undefined, it fails on reading a property of undefined.
\<close>

definition spec_serializeAssetName :: "Asset option \<Rightarrow> exn + string" where
  "spec_serializeAssetName asset =
     (case asset of
        None \<Rightarrow> Inl (Exn ''TypeError'')
      | Some a \<Rightarrow>
          if isVersionPreciseEnough a
          then Inr (Asset.name a @ ''@'' @ version_toString (version a))
          else Inl (Exn ''IncompleteIdentifier''))"

text \<open>
  Modelled from the spec: \<open>AssetNameParser\<close> is not among the sources. Section 4.2: the
  version is split on dots, and a token that is not a non-negative integer makes its
  component and all that follow absent; the grammar of section 6 has
  \<open>/name[@version][/subpath]\<close>. The remainder after the first segment is the path, kept
  with its slash, as \<open>computeUriPath\<close> appends it right behind the storage name.
\<close>

definition parse_nat :: "string \<Rightarrow> nat option" where
  "parse_nat s =
     (if s \<noteq> [] \<and> list_all (\<lambda>c. c \<in> set ''0123456789'') s
      then Some (foldl (\<lambda>n c. 10 * n + (of_char c - 48)) 0 s)
      else None)"

fun split_on :: "char \<Rightarrow> string \<Rightarrow> string list" where
  "split_on sep [] = [[]]"
| "split_on sep (c # cs) =
     (if c = sep then [] # split_on sep cs
      else (case split_on sep cs of [] \<Rightarrow> [[c]] | t # ts \<Rightarrow> (c # t) # ts))"

definition parse_version :: "string \<Rightarrow> Version" where
  "parse_version s =
     (let tokens = split_on CHR ''.'' s;
          ma = (case array_index tokens 0 of None \<Rightarrow> None | Some t \<Rightarrow> parse_nat t);
          mi = (if ma = None then None
                else (case array_index tokens 1 of None \<Rightarrow> None | Some t \<Rightarrow> parse_nat t));
          pa = (if mi = None then None
                else (case array_index tokens 2 of None \<Rightarrow> None | Some t \<Rightarrow> parse_nat t))
      in \<lparr>major = ma, minor = mi, patch = pa\<rparr>)"

definition parse_name_version :: "string \<Rightarrow> string \<times> Version" where
  "parse_name_version seg =
     (let n = takeWhile (\<lambda>c. c \<noteq> CHR ''@'') seg;
          rest = dropWhile (\<lambda>c. c \<noteq> CHR ''@'') seg
      in (n, if rest = [] then \<lparr>major = None, minor = None, patch = None\<rparr>
             else parse_version (tl rest)))"

definition spec_parseFromStorageName :: "string \<Rightarrow> Asset" where
  "spec_parseFromStorageName storageName =
     (let (n, v) = parse_name_version storageName
      in \<lparr>Asset.name = n, version = v, path = None\<rparr>)"

definition spec_parseFromUrl :: "string \<Rightarrow> exn + Asset" where
  "spec_parseFromUrl u =
     (let s = (if u \<noteq> [] \<and> hd u = CHR ''/'' then tl u else u);
          seg = takeWhile (\<lambda>c. c \<noteq> CHR ''/'') s;
          rest = dropWhile (\<lambda>c. c \<noteq> CHR ''/'') s;
          (n, v) = parse_name_version seg
      in Inr \<lparr>Asset.name = n, version = v, path = (if rest = [] then None else Some rest)\<rparr>)"

text \<open>
  An installation for the examples: the collaborators above, a catalog, a volume given as
  the list of its files, minifiers that return their input, a source path that drops
  \<open>.min\<close> from the extension, and the two settings of \<open>process.env\<close>.
\<close>

definition drop_min :: "string \<Rightarrow> string" where
  "drop_min u =
     (if endsWith u ''.min.js'' then take (length u - 7) u @ ''.js''
      else if endsWith u ''.min.mjs'' then take (length u - 8) u @ ''.mjs''
      else if endsWith u ''.min.css'' then take (length u - 8) u @ ''.css''
      else u)"

definition spec_imports ::
  "StoredAsset list \<Rightarrow> (string \<times> string) list \<Rightarrow> string option \<Rightarrow> string option \<Rightarrow> Imports" where
  "spec_imports catalog files cors auto =
     \<lparr>parseFromUrl = spec_parseFromUrl,
      parseFromStorageName = spec_parseFromStorageName,
      compare = spec_compare,
      matches = spec_matches,
      serializeAssetName = spec_serializeAssetName,
      allStoredAssets = Inr catalog,
      VOLUME_MOUNT_PATH = ''/assets'',
      isCssURI = (\<lambda>u. endsWith u ''.css''),
      isJsURI = (\<lambda>u. endsWith u ''.js'' \<or> endsWith u ''.mjs''),
      minifyCSS = (\<lambda>s. Inr s),
      minifyJS = (\<lambda>s. Inr s),
      resolveNonMinifiedURI = (\<lambda>u. Inr (drop_min u)),
      readFile = (\<lambda>p. case map_of files p of None \<Rightarrow> Inl (Exn ''ENOENT'') | Some content \<Rightarrow> Inr content),
      etag = (\<lambda>s. Inr ''tag''),
      A7_CORS_ALL = cors,
      A7_PATH_AUTO_RESOLVE = auto\<rparr>"

definition bob_catalog :: "StoredAsset list" where
  "bob_catalog =
     [\<lparr>StoredAsset.name = ''bob@1.3.3'', defaultPath = Some ''index.css''\<rparr>,
      \<lparr>StoredAsset.name = ''bob@1.3.4'', defaultPath = Some ''index.css''\<rparr>,
      \<lparr>StoredAsset.name = ''bob@2.0.0'', defaultPath = Some ''index.css''\<rparr>]"

definition bob_files :: "(string \<times> string) list" where
  "bob_files = [(''/assets/bob@1.3.3/dist/index.js'', ''let a = 1'')]"

definition bob_imports :: Imports where
  "bob_imports = spec_imports bob_catalog bob_files None None"

definition cors_imports :: Imports where
  "cors_imports = spec_imports bob_catalog bob_files (Some ''true'') (Some ''true'')"

text \<open>The catalog of the last scenario of section 8: one entry without a default path.\<close>

definition bare_catalog :: "StoredAsset list" where
  "bare_catalog = [\<lparr>StoredAsset.name = ''bob@2.0.0'', defaultPath = None\<rparr>]"

definition bare_imports :: Imports where
  "bare_imports = spec_imports bare_catalog [] None None"

text \<open>Installations whose parser, and whose catalog, throw.\<close>

definition broken_parser_imports :: Imports where
  "broken_parser_imports = bob_imports\<lparr>parseFromUrl := (\<lambda>u. Inl (Exn ''URIError''))\<rparr>"

definition broken_catalog_imports :: Imports where
  "broken_catalog_imports = bob_imports\<lparr>allStoredAssets := Inl (Exn ''EIO'')\<rparr>"

definition request :: "string \<Rightarrow> NginxHTTPRequest" where
  "request u = \<lparr>uri = u, serveFiles = None, headersOut = Map.empty, responses = []\<rparr>"

definition bob :: "nat option \<Rightarrow> nat option \<Rightarrow> nat option \<Rightarrow> Asset" where
  "bob ma mi pa =
     \<lparr>Asset.name = ''bob'', version = \<lparr>major = ma, minor = mi, patch = pa\<rparr>, path = None\<rparr>"

section \<open>The resolver in the words of the specification\<close>

text \<open>
  Section 4.5: parse every storage name, keep the entries of the requested name, sort them
  with the comparator, filter with the predicate, and take the first survivor.
\<close>

definition candidates_of :: "Imports \<Rightarrow> Asset \<Rightarrow> StoredAsset list \<Rightarrow> Asset list" where
  "candidates_of env requestedAsset catalog =
     filter (\<lambda>a. Asset.name a = Asset.name requestedAsset)
       (map (\<lambda>p. parseFromStorageName env (StoredAsset.name p)) catalog)"

definition resolver_spec :: "Imports \<Rightarrow> Asset \<Rightarrow> StoredAsset list \<Rightarrow> Asset option" where
  "resolver_spec env requestedAsset catalog =
     (case filter (matches env requestedAsset)
             (array_sort (compare env) (candidates_of env requestedAsset catalog)) of
        [] \<Rightarrow> None
      | best # rest \<Rightarrow> Some best)"

section \<open>Outcomes\<close>

text \<open>
  Section 4.6 names three outcomes. A call of \<open>r.return\<close> with status 200 serves, one with
  status 302 redirects, an internal redirect to \<open>/404.html\<close> is NotFound, and any other
  internal redirect is a redirect resolved without a round trip.
\<close>

datatype Outcome = Serve string | Redirect string | NotFound

fun outcome_of :: "Response \<Rightarrow> Outcome option" where
  "outcome_of (Return status body) =
     (if status = 200 then Some (Serve body)
      else if status = 302 then Some (Redirect body)
      else None)"
| "outcome_of (InternalRedirect target) =
     (if target = ''/404.html'' then Some NotFound else Some (Redirect target))"

text \<open>The default path of the first catalog entry stored under a name, as \<open>find\<close> reads it.\<close>

definition lookup_defaultPath :: "StoredAsset list \<Rightarrow> string \<Rightarrow> string option" where
  "lookup_defaultPath catalog storageName =
     (case find (\<lambda>p. StoredAsset.name p = storageName) catalog of
        None \<Rightarrow> None
      | Some p \<Rightarrow> StoredAsset.defaultPath p)"

text \<open>
  The place of a component in the comparator's order: absent lowest, then by value.
\<close>

definition rank :: "nat option \<Rightarrow> nat" where
  "rank c = (case c of None \<Rightarrow> 0 | Some x \<Rightarrow> Suc x)"

section \<open>Properties of helpers/String.ts\<close>

subsection \<open>hash\<close>

lemma toInt32_wrap32: "toInt32 x = wrap32 x"
  unfolding toInt32_def wrap32_def
  by (simp add: sint_sbintrunc' signed_take_bit_eq_take_bit_shift take_bit_eq_mod)

lemma hash_step_wrap: "hash_step h (Some c) = wrap32 (32 * h - h + int c)"
proof -
  have w: "(word_of_int (shiftLeft h 5 - h + int c) :: 32 word) = word_of_int (32 * h - h + int c)"
    unfolding shiftLeft_def by (simp add: push_bit_eq_mult)
  have "hash_step h (Some c) = toInt32 (shiftLeft h 5 - h + int c)"
    unfolding hash_step_def bitOr_def toInt32_def by simp
  also have "\<dots> = toInt32 (32 * h - h + int c)"
    unfolding toInt32_def using w by simp
  finally show ?thesis by (simp only: toInt32_wrap32)
qed

lemma hash_loop_fold:
  "i \<le> length input \<Longrightarrow>
   hash_loop input i h = fold (\<lambda>c h. wrap32 (32 * h - h + int (unat c))) (drop i input) h"
proof (induction input i h rule: hash_loop.induct)
  case (1 input i h)
  show ?case
  proof (cases "i < length input")
    case True
    then have d: "drop i input = input ! i # drop (Suc i) input"
      by (simp add: Cons_nth_drop_Suc)
    from True 1 show ?thesis
      by (subst hash_loop.simps) (simp add: d charCodeAt_def hash_step_wrap)
  next
    case False
    with 1 show ?thesis by (subst hash_loop.simps) simp
  qed
qed

lemma wrap32_range: "- (2 ^ 31) \<le> wrap32 x \<and> wrap32 x < 2 ^ 31"
  unfolding wrap32_def by simp

lemma hash_fold_range: "- (2 ^ 31) \<le> hash_fold input \<and> hash_fold input < 2 ^ 31"
proof (induction input rule: rev_induct)
  case Nil
  show ?case by (simp add: hash_fold_def)
next
  case (snoc c cs)
  show ?case unfolding hash_fold_def using wrap32_range by simp
qed

text \<open>
  Claim C10. For every input, \<open>hash\<close> returns the decimal text of the number obtained by
  folding \<open>h \<mapsto> 32 * h - h + charCode\<close> over the code units from 0, each step wrapped
  modulo \<open>2 ^ 32\<close> into the signed range, so the number is a signed 32-bit integer; equal
  inputs give equal outputs; and the hash of the empty string is \<open>0\<close>.
\<close>

theorem hash_is_wrapped_fold:
  "hash input = number_toString (hash_fold input)
   \<and> - (2 ^ 31) \<le> hash_fold input \<and> hash_fold input < 2 ^ 31
   \<and> (\<forall>input'. input' = input \<longrightarrow> hash input' = hash input)
   \<and> hash [] = ''0''"
proof -
  have a: "hash input = number_toString (hash_fold input)"
    by (simp add: hash_def hash_fold_def hash_loop_fold)
  have b: "hash [] = ''0''"
    by (simp add: hash_def hash_loop.simps number_toString_def show_nat.simps digit_char_def)
  from a b hash_fold_range show ?thesis by simp
qed

theorem hash_is_wrapped_fold_witness:
  "hash [104, 105] = ''3329'' \<and> hash_fold [104, 105] = 3329"
  using hash_is_wrapped_fold [of "[104, 105]"]
  by (simp add: hash_fold_def wrap32_def number_toString_def show_nat.simps digit_char_def)

subsection \<open>localeCompare\<close>

lemma localeCompare_loop_lex:
  "n = min (length s1) (length s2) \<Longrightarrow> i \<le> n \<Longrightarrow>
   (case localeCompare_loop s1 s2 n i of
      Some r \<Rightarrow> r
    | None \<Rightarrow> if length s1 < length s2 then - 1 else if length s1 > length s2 then 1 else 0)
   = lex_compare (drop i s1) (drop i s2)"
proof (induction s1 s2 n i rule: localeCompare_loop.induct)
  case (1 str1 str2 minLength i)
  show ?case
  proof (cases "i < minLength")
    case True
    with 1(2) have l1: "i < length str1" and l2: "i < length str2" by simp_all
    then have d1: "drop i str1 = str1 ! i # drop (Suc i) str1"
      and d2: "drop i str2 = str2 ! i # drop (Suc i) str2"
      by (simp_all add: Cons_nth_drop_Suc)
    from True have s: "Suc i \<le> minLength" by simp
    show ?thesis
    proof (cases "str1 ! i < str2 ! i")
      case lt: True
      with True l1 l2 show ?thesis
        by (subst localeCompare_loop.simps) (simp add: d1 d2 charCodeAt_def word_less_nat_alt)
    next
      case nlt: False
      show ?thesis
      proof (cases "str2 ! i < str1 ! i")
        case gt: True
        with True nlt l1 l2 show ?thesis
          by (subst localeCompare_loop.simps) (simp add: d1 d2 charCodeAt_def word_less_nat_alt)
      next
        case ngt: False
        from True nlt ngt l1 l2
        have "num_lt (charCodeAt str1 i) (charCodeAt str2 i) = False"
          and "num_lt (charCodeAt str2 i) (charCodeAt str1 i) = False"
          by (simp_all add: charCodeAt_def word_less_nat_alt)
        with 1(1) [OF True refl refl _ _ 1(2)] s True nlt ngt show ?thesis
          by (subst localeCompare_loop.simps) (simp add: d1 d2 Let_def)
      qed
    qed
  next
    case False
    with 1(3) have e: "i = minLength" by simp
    have "lex_compare (drop i str1) (drop i str2) =
          (if length str1 < length str2 then - 1 else if length str1 > length str2 then 1 else 0)"
    proof (cases "length str1 \<le> length str2")
      case True
      with e 1(2) have "drop i str1 = []" by simp
      moreover from e 1(2) True have "length (drop i str2) = length str2 - length str1" by simp
      ultimately show ?thesis using True
        by (cases "drop i str2") auto
    next
      case False
      with e 1(2) have "drop i str2 = []" by simp
      moreover from e 1(2) False have "length (drop i str1) = length str1 - length str2" by simp
      ultimately show ?thesis using False
        by (cases "drop i str1") auto
    qed
    with False show ?thesis by (subst localeCompare_loop.simps) simp
  qed
qed

lemma localeCompare_Some: "localeCompare (Some s) (Some t) = lex_compare s t"
  using localeCompare_loop_lex [of "min (length s) (length t)" s t 0]
  by (simp add: localeCompare_def Let_def)

lemma lex_compare_range: "lex_compare s t \<in> {- 1, 0, 1}"
  by (induction s t rule: lex_compare.induct) auto

lemma lex_compare_zero: "lex_compare s t = 0 \<longleftrightarrow> s = t"
  by (induction s t rule: lex_compare.induct) auto

lemma lex_compare_swap: "lex_compare t s = - lex_compare s t"
  by (induction s t rule: lex_compare.induct) auto

lemma lex_compare_lexord:
  "lex_compare s t = - 1 \<longleftrightarrow> (s, t) \<in> lexord {(x, y). unat x < unat y}"
  by (induction s t rule: lex_compare.induct) (auto simp: word_less_nat_alt word_unat_eq_iff)

lemma lex_compare_trans:
  "lex_compare s t \<le> 0 \<Longrightarrow> lex_compare t u \<le> 0 \<Longrightarrow> lex_compare s u \<le> 0"
proof (induction s t arbitrary: u rule: lex_compare.induct)
  case 1
  then show ?case by simp
next
  case (2 y ys)
  then show ?case by (cases u) auto
next
  case (3 x xs)
  then show ?case by simp
next
  case (4 x xs y ys)
  show ?case
  proof (cases u)
    case Nil
    with 4 show ?thesis by simp
  next
    case (Cons z zs)
    with 4 show ?thesis
      by (auto split: if_splits)
  qed
qed

text \<open>
  Claim C9. \<open>localeCompare\<close> returns only -1, 0 or 1; it returns 0 exactly when both
  arguments are the same string or both are undefined; undefined compares greater than any
  string; on two strings it is the lexicographic comparison of the code units, a proper
  prefix first; swapping the arguments negates the result; and \<open>a\<close> before or equal to
  \<open>b\<close>, read as a result of at most 0, is a total and transitive relation.
\<close>

theorem localeCompare_total_order:
  "localeCompare a b \<in> {- 1, 0, 1}
   \<and> (localeCompare a b = 0 \<longleftrightarrow> a = b)
   \<and> localeCompare None (Some s) = 1 \<and> localeCompare (Some s) None = - 1
   \<and> localeCompare (Some s) (Some t) =
       (if (s, t) \<in> lexord {(x, y). unat x < unat y} then - 1 else if s = t then 0 else 1)
   \<and> localeCompare b a = - localeCompare a b
   \<and> (localeCompare a b \<le> 0 \<or> localeCompare b a \<le> 0)
   \<and> (localeCompare a b \<le> 0 \<and> localeCompare b c \<le> 0 \<longrightarrow> localeCompare a c \<le> 0)"
proof -
  have r: "localeCompare a b \<in> {- 1, 0, 1}"
    using lex_compare_range
    by (cases a; cases b) (simp_all add: localeCompare_Some, simp_all add: localeCompare_def)
  have z: "localeCompare a b = 0 \<longleftrightarrow> a = b"
    by (cases a; cases b)
      (simp_all add: localeCompare_Some lex_compare_zero, simp_all add: localeCompare_def)
  have u: "localeCompare None (Some s) = 1 \<and> localeCompare (Some s) None = - 1"
    by (simp add: localeCompare_def)
  have l: "localeCompare (Some s) (Some t) =
       (if (s, t) \<in> lexord {(x, y). unat x < unat y} then - 1 else if s = t then 0 else 1)"
    using lex_compare_range [of s t] lex_compare_zero [of s t] lex_compare_lexord [of s t]
    by (auto simp: localeCompare_Some)
  have w: "localeCompare b a = - localeCompare a b"
  proof (cases a)
    case None
    then show ?thesis by (cases b) (simp_all add: localeCompare_def)
  next
    case (Some x)
    then show ?thesis
    proof (cases b)
      case None
      with Some show ?thesis by (simp add: localeCompare_def)
    next
      case sb: (Some y)
      with Some show ?thesis by (simp add: localeCompare_Some lex_compare_swap [of x y])
    qed
  qed
  have t: "localeCompare a b \<le> 0 \<or> localeCompare b a \<le> 0"
    using w by linarith
  have tr: "localeCompare a b \<le> 0 \<and> localeCompare b c \<le> 0 \<longrightarrow> localeCompare a c \<le> 0"
  proof (cases a)
    case None
    then show ?thesis by (cases b; cases c) (simp_all add: localeCompare_def)
  next
    case sa: (Some x)
    show ?thesis
    proof (cases b)
      case None
      with sa show ?thesis by (cases c) (simp_all add: localeCompare_def)
    next
      case sb: (Some y)
      show ?thesis
      proof (cases c)
        case None
        with sa sb show ?thesis by (simp add: localeCompare_def)
      next
        case (Some z)
        with sa sb lex_compare_trans [of x y z] show ?thesis by (simp add: localeCompare_Some)
      qed
    qed
  qed
  from r z u l w t tr show ?thesis by blast
qed

theorem localeCompare_total_order_witness:
  "localeCompare (Some [97]) (Some [97, 98]) \<le> 0 \<and> localeCompare (Some [97, 98]) None \<le> 0
   \<and> localeCompare (Some [97]) None \<le> 0
   \<and> localeCompare (Some [97]) (Some [97, 98]) = - 1"
  using localeCompare_total_order [of "Some [97]" "Some [97, 98]" "[97]" "[97, 98]" None]
  by (simp add: localeCompare_def localeCompare_loop.simps charCodeAt_def Let_def)

section \<open>Properties of the resolver\<close>

lemma array_index_0: "array_index xs 0 = (case xs of [] \<Rightarrow> None | x # rest \<Rightarrow> Some x)"
  by (cases xs) (simp_all add: array_index_def)

lemma findBestMatchingCandidate_resolver:
  "allStoredAssets env = Inr cat \<Longrightarrow>
   findBestMatchingCandidate env req = Inr (resolver_spec env req cat)"
  by (simp add: findBestMatchingCandidate_def resolver_spec_def candidates_of_def array_index_0
      Let_def comp_def)

lemma set_insort_cmp: "set (insort_cmp cmp x xs) = insert x (set xs)"
  by (induction xs) auto

lemma set_array_sort: "set (array_sort cmp xs) = set xs"
  unfolding array_sort_def by (induction xs) (simp_all add: set_insort_cmp)

lemma resolver_spec_None:
  "resolver_spec env req cat = None \<longleftrightarrow>
   \<not> (\<exists>a \<in> set (candidates_of env req cat). matches env req a)"
proof -
  have "resolver_spec env req cat = None \<longleftrightarrow>
        filter (matches env req) (array_sort (compare env) (candidates_of env req cat)) = []"
    by (simp add: resolver_spec_def candidates_of_def split: list.splits)
  then show ?thesis
    by (simp add: filter_empty_conv set_array_sort)
qed

lemma resolver_spec_Some:
  assumes "resolver_spec env req cat = Some best"
  shows "best \<in> set (candidates_of env req cat) \<and> matches env req best"
proof -
  let ?survivors = "filter (matches env req) (array_sort (compare env) (candidates_of env req cat))"
  from assms obtain rest where "?survivors = best # rest"
    by (auto simp: resolver_spec_def candidates_of_def split: list.splits)
  then have "best \<in> set ?survivors" by simp
  then show ?thesis by (simp add: set_array_sort)
qed

text \<open>
  Claim C1. When the catalog is read, \<open>findBestMatchingCandidate\<close> returns the first
  element of the sequence obtained by parsing every storage name, keeping the entries of the
  requested name, sorting them with the comparator and filtering them with the predicate. It
  returns nothing exactly when no entry of that name satisfies the predicate, and what it
  returns is an entry of that name that satisfies it.
\<close>

theorem findBestMatchingCandidate_first_survivor:
  assumes "allStoredAssets env = Inr cat"
  shows "findBestMatchingCandidate env req = Inr (resolver_spec env req cat)
         \<and> (resolver_spec env req cat = None \<longleftrightarrow>
              \<not> (\<exists>a \<in> set (candidates_of env req cat). matches env req a))
         \<and> (\<forall>best. resolver_spec env req cat = Some best \<longrightarrow>
              best \<in> set (candidates_of env req cat) \<and> matches env req best)"
  using assms findBestMatchingCandidate_resolver resolver_spec_None resolver_spec_Some
  by simp

theorem findBestMatchingCandidate_first_survivor_witness:
  "findBestMatchingCandidate bob_imports (bob (Some 1) None None) =
     Inr (Some (bob (Some 1) (Some 3) (Some 4)))
   \<and> findBestMatchingCandidate bob_imports (bob (Some 3) None None) = Inr None"
proof -
  have c: "allStoredAssets bob_imports = Inr bob_catalog" by code_simp
  have r1: "resolver_spec bob_imports (bob (Some 1) None None) bob_catalog =
            Some (bob (Some 1) (Some 3) (Some 4))" by code_simp
  have r3: "resolver_spec bob_imports (bob (Some 3) None None) bob_catalog = None" by code_simp
  from findBestMatchingCandidate_first_survivor [OF c, of "bob (Some 1) None None"]
    findBestMatchingCandidate_first_survivor [OF c, of "bob (Some 3) None None"] r1 r3
  show ?thesis by simp
qed

subsection \<open>The newest version\<close>

lemma sorted_insort_cmp:
  assumes tot: "\<And>a b. cmp a b \<le> 0 \<or> cmp b a \<le> 0"
    and tr: "\<And>a b c. cmp a b \<le> 0 \<Longrightarrow> cmp b c \<le> 0 \<Longrightarrow> cmp a c \<le> 0"
  shows "sorted_wrt (\<lambda>a b. cmp a b \<le> 0) xs \<Longrightarrow> sorted_wrt (\<lambda>a b. cmp a b \<le> 0) (insort_cmp cmp x xs)"
proof (induction xs)
  case Nil
  then show ?case by simp
next
  case (Cons y ys)
  show ?case
  proof (cases "cmp x y \<le> 0")
    case True
    with Cons.prems tr show ?thesis by auto
  next
    case False
    with tot have "cmp y x \<le> 0" by blast
    with False Cons show ?thesis by (auto simp: set_insort_cmp)
  qed
qed

lemma sorted_array_sort:
  assumes tot: "\<And>a b. cmp a b \<le> 0 \<or> cmp b a \<le> 0"
    and tr: "\<And>a b c. cmp a b \<le> 0 \<Longrightarrow> cmp b c \<le> 0 \<Longrightarrow> cmp a c \<le> 0"
  shows "sorted_wrt (\<lambda>a b. cmp a b \<le> 0) (array_sort cmp xs)"
  unfolding array_sort_def
  by (induction xs) (simp_all add: sorted_insort_cmp [OF tot tr])

lemma compare_component_le: "compare_component x y \<le> 0 \<longleftrightarrow> rank y \<le> rank x"
  by (cases x; cases y) (simp_all add: rank_def)

lemma compare_component_zero: "compare_component x y = 0 \<longleftrightarrow> rank x = rank y"
  by (cases x; cases y) (simp_all add: rank_def)

lemma spec_compare_le:
  "spec_compare a b \<le> 0 \<longleftrightarrow>
   (rank (major (version b)) < rank (major (version a))
    \<or> rank (major (version b)) = rank (major (version a))
      \<and> (rank (minor (version b)) < rank (minor (version a))
         \<or> rank (minor (version b)) = rank (minor (version a))
           \<and> rank (patch (version b)) \<le> rank (patch (version a))))"
  unfolding spec_compare_def Let_def
  using compare_component_le [of "major (version a)" "major (version b)"]
    compare_component_zero [of "major (version a)" "major (version b)"]
    compare_component_le [of "minor (version a)" "minor (version b)"]
    compare_component_zero [of "minor (version a)" "minor (version b)"]
    compare_component_le [of "patch (version a)" "patch (version b)"]
  by auto

lemma spec_compare_total: "spec_compare a b \<le> 0 \<or> spec_compare b a \<le> 0"
  unfolding spec_compare_le by linarith

lemma spec_compare_trans:
  "spec_compare a b \<le> 0 \<and> spec_compare b c \<le> 0 \<longrightarrow> spec_compare a c \<le> 0"
  unfolding spec_compare_le by linarith

lemma spec_matches_unconstrained:
  "version req = \<lparr>major = None, minor = None, patch = None\<rparr> \<longrightarrow> spec_matches req a"
  by (simp add: spec_matches_def component_matches_def)

text \<open>
  Claim C4. Let the request have no version component, let the predicate accept every
  candidate of such a request, and let the comparator be total and transitive. When the
  catalog holds an entry of the requested name, the resolver returns such an entry, and the
  comparator puts it before or level with every entry of that name: it is the newest.
\<close>

theorem resolver_unconstrained_maximum:
  assumes cat: "allStoredAssets env = Inr cat"
    and nonempty: "candidates_of env req cat \<noteq> []"
    and unconstrained: "version req = \<lparr>major = None, minor = None, patch = None\<rparr>"
    and accepts: "\<forall>a. version req = \<lparr>major = None, minor = None, patch = None\<rparr> \<longrightarrow> matches env req a"
    and total: "\<forall>a b. compare env a b \<le> 0 \<or> compare env b a \<le> 0"
    and trans: "\<forall>a b c. compare env a b \<le> 0 \<and> compare env b c \<le> 0 \<longrightarrow> compare env a c \<le> 0"
  shows "\<exists>best. findBestMatchingCandidate env req = Inr (Some best)
           \<and> best \<in> set (candidates_of env req cat)
           \<and> (\<forall>a \<in> set (candidates_of env req cat). compare env best a \<le> 0)"
proof -
  let ?sorted = "array_sort (compare env) (candidates_of env req cat)"
  from accepts unconstrained have all: "\<And>a. matches env req a" by blast
  then have f: "filter (matches env req) ?sorted = ?sorted" by simp
  from nonempty have "set ?sorted \<noteq> {}" by (simp add: set_array_sort)
  then obtain best rest where s: "?sorted = best # rest" by (cases ?sorted) auto
  have srt: "sorted_wrt (\<lambda>a b. compare env a b \<le> 0) ?sorted"
    using total trans by (intro sorted_array_sort) blast+
  have r: "resolver_spec env req cat = Some best"
    using f s by (simp add: resolver_spec_def candidates_of_def)
  have m: "best \<in> set (candidates_of env req cat)"
    using s set_array_sort [of "compare env" "candidates_of env req cat"] by auto
  have "\<forall>a \<in> set ?sorted. compare env best a \<le> 0"
    using srt s total by auto
  then have mx: "\<forall>a \<in> set (candidates_of env req cat). compare env best a \<le> 0"
    by (simp add: set_array_sort)
  from r m mx findBestMatchingCandidate_resolver [OF cat, of req] show ?thesis by simp
qed

theorem resolver_unconstrained_maximum_witness:
  "findBestMatchingCandidate bob_imports (bob None None None) =
     Inr (Some (bob (Some 2) (Some 0) (Some 0)))
   \<and> compare bob_imports (bob (Some 2) (Some 0) (Some 0)) (bob (Some 1) (Some 3) (Some 4)) \<le> 0"
proof -
  have c: "allStoredAssets bob_imports = Inr bob_catalog" by code_simp
  have n: "candidates_of bob_imports (bob None None None) bob_catalog \<noteq> []" by code_simp
  have u: "version (bob None None None) = \<lparr>major = None, minor = None, patch = None\<rparr>"
    by (simp add: bob_def)
  have cm: "compare bob_imports = spec_compare" and ma: "matches bob_imports = spec_matches"
    by (simp_all add: bob_imports_def spec_imports_def)
  have acc: "\<forall>a. version (bob None None None) = \<lparr>major = None, minor = None, patch = None\<rparr>
               \<longrightarrow> matches bob_imports (bob None None None) a"
    using spec_matches_unconstrained by (simp add: ma)
  have tot: "\<forall>a b. compare bob_imports a b \<le> 0 \<or> compare bob_imports b a \<le> 0"
    using spec_compare_total by (simp add: cm)
  have tr: "\<forall>a b c. compare bob_imports a b \<le> 0 \<and> compare bob_imports b c \<le> 0
              \<longrightarrow> compare bob_imports a c \<le> 0"
    using spec_compare_trans unfolding cm by blast
  have m: "bob (Some 1) (Some 3) (Some 4) \<in> set (candidates_of bob_imports (bob None None None) bob_catalog)"
    by code_simp
  have f: "findBestMatchingCandidate bob_imports (bob None None None) =
             Inr (Some (bob (Some 2) (Some 0) (Some 0)))" by code_simp
  from resolver_unconstrained_maximum [OF c n u acc tot tr] f m
  show ?thesis by auto
qed

subsection \<open>The catalog array\<close>

lemma strings_at_last: "n = length st \<Longrightarrow> strings_at (st @ [StringArray xs]) n = xs"
  by (simp add: strings_at_def)

lemma assets_at_last: "n = length st \<Longrightarrow> assets_at (st @ [AssetArray xs]) n = xs"
  by (simp add: assets_at_def)

lemma update_last: "n = length st \<Longrightarrow> (st @ [a])[n := b] = st @ [b]"
  by simp

text \<open>
  Claim C8. Run on a store whose cell \<open>all\<close> holds the catalog, the resolver returns what
  it returns on the catalog as a value, and leaves every array that was in the store as it
  was, the catalog among them with the same entries in the same order: the array it sorts in
  place is one it has allocated itself.
\<close>

theorem resolver_leaves_catalog:
  assumes ref: "all < length st" and cell: "st ! all = StoredAssetArray cat"
  shows "\<exists>st'. findBestMatchingCandidate_store env req all st = Some (resolver_spec env req cat, st')
           \<and> take (length st) st' = st
           \<and> st' ! all = StoredAssetArray cat"
proof -
  obtain st' where run: "findBestMatchingCandidate_store env req all st = Some (resolver_spec env req cat, st')"
    and st': "st' = st @ [StringArray (map StoredAsset.name cat),
                AssetArray (map (parseFromStorageName env) (map StoredAsset.name cat)),
                AssetArray (array_sort (compare env)
                  (filter (\<lambda>p. Asset.name p = Asset.name req)
                     (map (parseFromStorageName env) (map StoredAsset.name cat)))),
                AssetArray (filter (matches env req) (array_sort (compare env)
                  (filter (\<lambda>p. Asset.name p = Asset.name req)
                     (map (parseFromStorageName env) (map StoredAsset.name cat)))))]"
    using ref cell unfolding findBestMatchingCandidate_store_def alloc_def
    by (simp add: strings_at_last assets_at_last update_last Let_def resolver_spec_def
        candidates_of_def array_index_0 comp_def)
  have frame: "take (length st) st' = st" by (simp add: st')
  have same: "st' ! all = StoredAssetArray cat"
    using ref cell by (simp add: st' nth_append)
  from run frame same show ?thesis by blast
qed

theorem resolver_leaves_catalog_witness:
  "(case findBestMatchingCandidate_store bob_imports (bob (Some 1) None None) 0
           [StoredAssetArray bob_catalog] of
      None \<Rightarrow> False
    | Some (best, st') \<Rightarrow>
        best = Some (bob (Some 1) (Some 3) (Some 4))
        \<and> st' ! 0 = StoredAssetArray bob_catalog \<and> length st' = 5)"
proof -
  have a: "0 < length [StoredAssetArray bob_catalog]" by simp
  have b: "[StoredAssetArray bob_catalog] ! 0 = StoredAssetArray bob_catalog" by simp
  have r: "resolver_spec bob_imports (bob (Some 1) None None) bob_catalog =
            Some (bob (Some 1) (Some 3) (Some 4))" by code_simp
  have l: "length (snd (the (findBestMatchingCandidate_store bob_imports (bob (Some 1) None None) 0
           [StoredAssetArray bob_catalog]))) = 5" by code_simp
  from resolver_leaves_catalog [OF a b, of bob_imports "bob (Some 1) None None"] r l
  show ?thesis by auto
qed

section \<open>Properties of expand\<close>

lemma show_nat_nonempty: "show_nat n \<noteq> []"
  by (subst show_nat.simps) simp

lemma version_toString_precise:
  "isVersionPreciseEnough a \<Longrightarrow>
   version_toString (version a) =
     show_nat (the (major (version a))) @ ''.'' @ show_nat (the (minor (version a))) @ ''.'' @
     show_nat (the (patch (version a)))"
  by (auto simp: isVersionPreciseEnough_def version_toString_def)

lemma version_toString_nonempty:
  "isVersionPreciseEnough a \<Longrightarrow> version_toString (version a) \<noteq> []"
  by (simp add: version_toString_precise show_nat_nonempty)

lemma responses_handleNotFound:
  "responses (handleNotFound r) = responses r @ [InternalRedirect ''/404.html'']"
  by (simp add: handleNotFound_def r_internalRedirect_def)

lemma responses_redirectOrResolve:
  "responses (redirectOrResolve env target r) =
   responses r @ [if truthy (A7_PATH_AUTO_RESOLVE env) then InternalRedirect target
                  else Return 302 target]"
  by (simp add: redirectOrResolve_def r_internalRedirect_def r_return_def Let_def)

lemma responses_r_return: "responses (r_return status body r) = responses r @ [Return status body]"
  by (simp add: r_return_def)

subsection \<open>The redirect policy\<close>

text \<open>
  Claim C7. \<open>redirectOrResolve\<close> makes an internal redirect to the target when
  \<open>A7_PATH_AUTO_RESOLVE\<close> is set and answers 302 with the target otherwise; when
  \<open>A7_CORS_ALL\<close> is set, both access-control headers are set to the wildcard, whichever of
  the two it does, and the headers stay as they were when it is not set.
\<close>

theorem redirectOrResolve_policy:
  "(truthy (A7_PATH_AUTO_RESOLVE env) \<longrightarrow>
      responses (redirectOrResolve env target r) = responses r @ [InternalRedirect target])
   \<and> (\<not> truthy (A7_PATH_AUTO_RESOLVE env) \<longrightarrow>
      responses (redirectOrResolve env target r) = responses r @ [Return 302 target])
   \<and> (truthy (A7_CORS_ALL env) \<longrightarrow>
      headersOut (redirectOrResolve env target r) =
        (headersOut r)(''access-control-allow-origin'' \<mapsto> ''*'',
                       ''access-control-allow-headers'' \<mapsto> ''*''))
   \<and> (\<not> truthy (A7_CORS_ALL env) \<longrightarrow>
      headersOut (redirectOrResolve env target r) = headersOut r)"
  by (simp add: redirectOrResolve_def r_internalRedirect_def r_return_def Let_def)

theorem redirectOrResolve_policy_witness:
  "responses (redirectOrResolve cors_imports ''/bob@1.3.4/index.css'' (request ''/bob@1'')) =
     [InternalRedirect ''/bob@1.3.4/index.css'']
   \<and> headersOut (redirectOrResolve cors_imports ''/bob@1.3.4/index.css'' (request ''/bob@1''))
        ''access-control-allow-origin'' = Some ''*''
   \<and> headersOut (redirectOrResolve cors_imports ''/bob@1.3.4/index.css'' (request ''/bob@1''))
        ''access-control-allow-headers'' = Some ''*''
   \<and> responses (redirectOrResolve bob_imports ''/bob@1.3.4/index.css'' (request ''/bob@1'')) =
     [Return 302 ''/bob@1.3.4/index.css'']
   \<and> headersOut (redirectOrResolve bob_imports ''/bob@1.3.4/index.css'' (request ''/bob@1'')) =
     Map.empty"
proof -
  have a: "truthy (A7_PATH_AUTO_RESOLVE cors_imports)" and c: "truthy (A7_CORS_ALL cors_imports)"
    by (simp_all add: cors_imports_def spec_imports_def truthy_def)
  have na: "\<not> truthy (A7_PATH_AUTO_RESOLVE bob_imports)" and nc: "\<not> truthy (A7_CORS_ALL bob_imports)"
    by (simp_all add: bob_imports_def spec_imports_def truthy_def)
  from redirectOrResolve_policy [of cors_imports "''/bob@1.3.4/index.css''" "request ''/bob@1''"]
    redirectOrResolve_policy [of bob_imports "''/bob@1.3.4/index.css''" "request ''/bob@1''"]
    a c na nc
  show ?thesis by (simp add: request_def)
qed

subsection \<open>An imprecise version\<close>

lemma computeUriPath_eq:
  assumes "allStoredAssets env = Inr cat" and "serializeAssetName env candidate = Inr storageName"
  shows "computeUriPath env req candidate =
         Inr (if truthy (path req) then ''/'' @ storageName @ the (path req)
              else if truthy (lookup_defaultPath cat storageName)
                   then ''/'' @ storageName @ ''/'' @ the (lookup_defaultPath cat storageName)
                   else '''')"
  using assms
  by (auto simp: computeUriPath_def lookup_defaultPath_def Let_def truthy_def template_def
      split: option.splits)

lemma expand_try_imprecise:
  assumes "parseFromUrl env (uri r) = Inr req" and "\<not> isVersionPreciseEnough req"
  shows "expand_try env r =
         (case findBestMatchingCandidate env req of
            Inl e \<Rightarrow> (Inl e, r)
          | Inr candidateAsset \<Rightarrow>
              (case computeUriPath env req candidateAsset of
                 Inl e \<Rightarrow> (Inl e, r)
               | Inr newPath \<Rightarrow>
                   if newPath = '''' then (Inr (), handleNotFound r)
                   else (Inr (), redirectOrResolve env newPath r)))"
  using assms by (simp add: expand_try_def Let_def)

text \<open>
  Claim C2. Let the parsed version lack a component, let the catalog be read, and let the
  serializer fail on undefined, as a function that reads the fields of its argument does.
  Then \<open>expand\<close> runs the resolver. Without a match the outcome is NotFound. With a match
  whose storage name the serializer returns, the target is \<open>/\<close> and the storage name,
  followed by the path of the request when it has one, else by \<open>/\<close> and the default path
  registered under that storage name; with neither path the outcome is NotFound, and in the
  other two cases \<open>expand\<close> redirects to the target.
\<close>

theorem expand_imprecise_version:
  assumes parse: "parseFromUrl env (uri r) = Inr req"
    and imprecise: "\<not> isVersionPreciseEnough req"
    and cat: "allStoredAssets env = Inr cat"
    and undef: "serializeAssetName env None = Inl e0"
  shows "(findBestMatchingCandidate env req = Inr None \<longrightarrow>
            expand env r = (Inr (), handleNotFound r))
       \<and> (\<forall>candidate storageName.
            findBestMatchingCandidate env req = Inr (Some candidate) \<and>
            serializeAssetName env (Some candidate) = Inr storageName \<longrightarrow>
            expand env r =
              (Inr (),
               if truthy (path req)
               then redirectOrResolve env (''/'' @ storageName @ the (path req)) r
               else if truthy (lookup_defaultPath cat storageName)
                    then redirectOrResolve env
                           (''/'' @ storageName @ ''/'' @ the (lookup_defaultPath cat storageName)) r
                    else handleNotFound r))"
proof (intro conjI allI impI)
  assume "findBestMatchingCandidate env req = Inr None"
  with undef show "expand env r = (Inr (), handleNotFound r)"
    by (simp add: expand_def expand_try_imprecise [OF parse imprecise] computeUriPath_def)
next
  fix candidate storageName
  assume a: "findBestMatchingCandidate env req = Inr (Some candidate) \<and>
             serializeAssetName env (Some candidate) = Inr storageName"
  then have c: "computeUriPath env req (Some candidate) =
         Inr (if truthy (path req) then ''/'' @ storageName @ the (path req)
              else if truthy (lookup_defaultPath cat storageName)
                   then ''/'' @ storageName @ ''/'' @ the (lookup_defaultPath cat storageName)
                   else '''')"
    using computeUriPath_eq [OF cat] by simp
  from a show "expand env r =
              (Inr (),
               if truthy (path req)
               then redirectOrResolve env (''/'' @ storageName @ the (path req)) r
               else if truthy (lookup_defaultPath cat storageName)
                    then redirectOrResolve env
                           (''/'' @ storageName @ ''/'' @ the (lookup_defaultPath cat storageName)) r
                    else handleNotFound r)"
    by (simp add: expand_def expand_try_imprecise [OF parse imprecise] c)
qed

theorem expand_imprecise_version_witness:
  "responses (snd (expand bob_imports (request ''/bob@1''))) = [Return 302 ''/bob@1.3.4/index.css'']
   \<and> responses (snd (expand bob_imports (request ''/bob@1/dist/a.js''))) =
       [Return 302 ''/bob@1.3.4/dist/a.js'']
   \<and> responses (snd (expand bob_imports (request ''/bob@3''))) = [InternalRedirect ''/404.html'']
   \<and> responses (snd (expand bare_imports (request ''/bob''))) = [InternalRedirect ''/404.html'']"
proof -
  have c: "allStoredAssets bob_imports = Inr bob_catalog"
    and u: "serializeAssetName bob_imports None = Inl (Exn ''TypeError'')"
    and c': "allStoredAssets bare_imports = Inr bare_catalog"
    and u': "serializeAssetName bare_imports None = Inl (Exn ''TypeError'')"
    by code_simp+
  have p1: "parseFromUrl bob_imports (uri (request ''/bob@1'')) = Inr (bob (Some 1) None None)"
    and i1: "\<not> isVersionPreciseEnough (bob (Some 1) None None)"
    and f1: "findBestMatchingCandidate bob_imports (bob (Some 1) None None) =
             Inr (Some (bob (Some 1) (Some 3) (Some 4)))"
    and s1: "serializeAssetName bob_imports (Some (bob (Some 1) (Some 3) (Some 4))) = Inr ''bob@1.3.4''"
    and t1: "\<not> truthy (path (bob (Some 1) None None))"
    and l1: "lookup_defaultPath bob_catalog ''bob@1.3.4'' = Some ''index.css''"
    by code_simp+
  have p2: "parseFromUrl bob_imports (uri (request ''/bob@1/dist/a.js'')) =
            Inr ((bob (Some 1) None None)\<lparr>path := Some ''/dist/a.js''\<rparr>)"
    and i2: "\<not> isVersionPreciseEnough ((bob (Some 1) None None)\<lparr>path := Some ''/dist/a.js''\<rparr>)"
    and f2: "findBestMatchingCandidate bob_imports ((bob (Some 1) None None)\<lparr>path := Some ''/dist/a.js''\<rparr>) =
             Inr (Some (bob (Some 1) (Some 3) (Some 4)))"
    and t2: "truthy (path ((bob (Some 1) None None)\<lparr>path := Some ''/dist/a.js''\<rparr>))"
    and v2: "the (path ((bob (Some 1) None None)\<lparr>path := Some ''/dist/a.js''\<rparr>)) = ''/dist/a.js''"
    by code_simp+
  have p3: "parseFromUrl bob_imports (uri (request ''/bob@3'')) = Inr (bob (Some 3) None None)"
    and i3: "\<not> isVersionPreciseEnough (bob (Some 3) None None)"
    and f3: "findBestMatchingCandidate bob_imports (bob (Some 3) None None) = Inr None"
    by code_simp+
  have p4: "parseFromUrl bare_imports (uri (request ''/bob'')) = Inr (bob None None None)"
    and i4: "\<not> isVersionPreciseEnough (bob None None None)"
    and f4: "findBestMatchingCandidate bare_imports (bob None None None) =
             Inr (Some (bob (Some 2) (Some 0) (Some 0)))"
    and s4: "serializeAssetName bare_imports (Some (bob (Some 2) (Some 0) (Some 0))) = Inr ''bob@2.0.0''"
    and t4: "\<not> truthy (path (bob None None None))"
    and l4: "\<not> truthy (lookup_defaultPath bare_catalog ''bob@2.0.0'')"
    by code_simp+
  have na: "\<not> truthy (A7_PATH_AUTO_RESOLVE bob_imports)" by code_simp
  have r1: "responses (snd (expand bob_imports (request ''/bob@1''))) =
            [Return 302 ''/bob@1.3.4/index.css'']"
    using expand_imprecise_version [OF p1 i1 c u] f1 s1 t1 l1 na
    by (simp add: responses_redirectOrResolve truthy_def request_def)
  have r2: "responses (snd (expand bob_imports (request ''/bob@1/dist/a.js''))) =
            [Return 302 ''/bob@1.3.4/dist/a.js'']"
    using expand_imprecise_version [OF p2 i2 c u] f2 s1 t2 v2 na
    by (simp add: responses_redirectOrResolve request_def)
  have r3: "responses (snd (expand bob_imports (request ''/bob@3''))) = [InternalRedirect ''/404.html'']"
    using expand_imprecise_version [OF p3 i3 c u] f3
    by (simp add: responses_handleNotFound request_def)
  have r4: "responses (snd (expand bare_imports (request ''/bob''))) = [InternalRedirect ''/404.html'']"
    using expand_imprecise_version [OF p4 i4 c' u'] f4 s4 t4 l4
    by (simp add: responses_handleNotFound request_def)
  from r1 r2 r3 r4 show ?thesis by simp
qed

subsection \<open>A precise version without a path\<close>

lemma assetDefaultPath_eq:
  assumes "allStoredAssets env = Inr cat" and "Asset.name req \<noteq> ''''"
    and "isVersionPreciseEnough req"
  shows "assetDefaultPath env req =
         Inr (if truthy (lookup_defaultPath cat (Asset.name req @ ''@'' @ version_toString (version req)))
              then the (lookup_defaultPath cat (Asset.name req @ ''@'' @ version_toString (version req)))
              else '''')"
  using assms version_toString_nonempty [of req]
  by (simp add: assetDefaultPath_def lookup_defaultPath_def Let_def)

text \<open>
  Claim C5. Let the parsed identifier have a name, all three version components and no path,
  and let the catalog be read. Then \<open>expand\<close> looks up the default path registered under
  \<open>name@version\<close>; without one the outcome is NotFound, and with one \<open>expand\<close>
  redirects to \<open>/name@version/defaultPath\<close>.
\<close>

theorem expand_precise_without_path:
  assumes parse: "parseFromUrl env (uri r) = Inr req"
    and precise: "isVersionPreciseEnough req"
    and nopath: "\<not> truthy (path req)"
    and cat: "allStoredAssets env = Inr cat"
    and named: "Asset.name req \<noteq> ''''"
  shows "expand env r =
         (Inr (),
          if truthy (lookup_defaultPath cat (Asset.name req @ ''@'' @ version_toString (version req)))
          then redirectOrResolve env
                 (''/'' @ Asset.name req @ ''@'' @ version_toString (version req) @ ''/'' @
                  the (lookup_defaultPath cat (Asset.name req @ ''@'' @ version_toString (version req)))) r
          else handleNotFound r)"
  using parse precise nopath
  by (simp add: expand_def expand_try_def Let_def assetDefaultPath_eq [OF cat named precise]
      truthy_def split: option.splits)

theorem expand_precise_without_path_witness:
  "responses (snd (expand bob_imports (request ''/bob@1.3.3''))) =
     [Return 302 ''/bob@1.3.3/index.css'']
   \<and> responses (snd (expand bob_imports (request ''/bob@9.9.9''))) = [InternalRedirect ''/404.html'']"
proof -
  have c: "allStoredAssets bob_imports = Inr bob_catalog" by code_simp
  have p1: "parseFromUrl bob_imports (uri (request ''/bob@1.3.3'')) = Inr (bob (Some 1) (Some 3) (Some 3))"
    and i1: "isVersionPreciseEnough (bob (Some 1) (Some 3) (Some 3))"
    and t1: "\<not> truthy (path (bob (Some 1) (Some 3) (Some 3)))"
    and n1: "Asset.name (bob (Some 1) (Some 3) (Some 3)) \<noteq> ''''"
    and v1: "Asset.name (bob (Some 1) (Some 3) (Some 3)) @ ''@'' @
             version_toString (version (bob (Some 1) (Some 3) (Some 3))) = ''bob@1.3.3''"
    and l1: "lookup_defaultPath bob_catalog ''bob@1.3.3'' = Some ''index.css''"
    by code_simp+
  have p2: "parseFromUrl bob_imports (uri (request ''/bob@9.9.9'')) = Inr (bob (Some 9) (Some 9) (Some 9))"
    and i2: "isVersionPreciseEnough (bob (Some 9) (Some 9) (Some 9))"
    and t2: "\<not> truthy (path (bob (Some 9) (Some 9) (Some 9)))"
    and n2: "Asset.name (bob (Some 9) (Some 9) (Some 9)) \<noteq> ''''"
    and v2: "Asset.name (bob (Some 9) (Some 9) (Some 9)) @ ''@'' @
             version_toString (version (bob (Some 9) (Some 9) (Some 9))) = ''bob@9.9.9''"
    and l2: "lookup_defaultPath bob_catalog ''bob@9.9.9'' = None"
    by code_simp+
  have na: "\<not> truthy (A7_PATH_AUTO_RESOLVE bob_imports)" by code_simp
  have r1: "responses (snd (expand bob_imports (request ''/bob@1.3.3''))) =
            [Return 302 ''/bob@1.3.3/index.css'']"
    using expand_precise_without_path [OF p1 i1 t1 c n1] na
    by (simp add: v1 [simplified] l1 responses_redirectOrResolve truthy_def request_def)
  have r2: "responses (snd (expand bob_imports (request ''/bob@9.9.9''))) =
            [InternalRedirect ''/404.html'']"
    using expand_precise_without_path [OF p2 i2 t2 c n2]
    by (simp add: v2 [simplified] l2 responses_handleNotFound truthy_def request_def)
  from r1 r2 show ?thesis by simp
qed

subsection \<open>Exceptions\<close>

lemma expand_minification_effect:
  assumes "expand_minification env r = (res, r1)"
  shows "uri r1 = uri r \<and> serveFiles r1 = serveFiles r
         \<and> (case res of
              Inl e \<Rightarrow> responses r1 = responses r
            | Inr u \<Rightarrow> (\<exists>body. responses r1 = responses r @ [Return 200 body]))"
  using assms
  by (auto simp: expand_minification_def Let_def r_return_def split: sum.splits if_splits)

lemma expand_complete_responses:
  assumes "(case (if isMinificationRequested (uri r) then expand_minification env r
                   else (Inr (), r)) of
              (Inl e, r1) \<Rightarrow> (Inl e, r1)
            | (Inr u, r1) \<Rightarrow>
                if truthy (serveFiles r1) then
                  (case readFile env (VOLUME_MOUNT_PATH env @ uri r1) of
                     Inl e \<Rightarrow> (Inl e, r1)
                   | Inr content \<Rightarrow> (Inr (), r_return 200 content r1))
                else (Inr (), handleNotFound r1)) = (res, r2)"
  shows "\<exists>xs. responses r2 = responses r @ xs
              \<and> (\<forall>u. res = Inr u \<longrightarrow> xs \<noteq> [] \<and> outcome_of (last xs) \<noteq> None)"
proof (cases "isMinificationRequested (uri r)")
  case False
  with assms show ?thesis
    by (auto simp: responses_r_return responses_handleNotFound split: if_splits sum.splits)
next
  case True
  obtain res1 r1 where m: "expand_minification env r = (res1, r1)"
    by (cases "expand_minification env r") auto
  note eff = expand_minification_effect [OF m]
  show ?thesis
  proof (cases res1)
    case (Inl e)
    with True m assms eff show ?thesis by auto
  next
    case (Inr u)
    with eff obtain body where b: "responses r1 = responses r @ [Return 200 body]" by auto
    from True m Inr assms b show ?thesis
      by (auto simp: responses_r_return responses_handleNotFound split: if_splits sum.splits)
  qed
qed

lemma expand_try_responses:
  assumes "expand_try env r = (res, r1)"
  shows "\<exists>xs. responses r1 = responses r @ xs
              \<and> (\<forall>u. res = Inr u \<longrightarrow> xs \<noteq> [] \<and> outcome_of (last xs) \<noteq> None)"
proof (cases "parseFromUrl env (uri r)")
  case (Inl e)
  with assms show ?thesis by (auto simp: expand_try_def)
next
  case (Inr req)
  show ?thesis
  proof (cases "truthy (path req) \<and> isVersionPreciseEnough req")
    case True
    with Inr assms
      expand_complete_responses [where r = r and env = env and res = res and ?r2.0 = r1]
    show ?thesis
      by (simp add: expand_try_def Let_def)
  next
    case False
    with Inr assms show ?thesis
      by (auto simp: expand_try_def Let_def responses_handleNotFound responses_redirectOrResolve
          split: sum.splits if_splits)
  qed
qed

text \<open>
  Claim C3. No exception leaves \<open>expand\<close>. Whenever the body of its \<open>try\<close> block throws,
  \<open>expand\<close> ends with \<open>handleNotFound\<close>, so its last response is NotFound: so it is when
  the parser throws, when reading the catalog throws on a request that needs a redirect, and
  when the serializer fails on the resolver's result. In every case \<open>expand\<close> responds, and
  its last response is one of Serve, Redirect and NotFound.
\<close>

theorem expand_never_throws:
  "fst (expand env r) = Inr ()
   \<and> (\<forall>e r1. expand_try env r = (Inl e, r1) \<longrightarrow>
        snd (expand env r) = handleNotFound r1
        \<and> outcome_of (last (responses (snd (expand env r)))) = Some NotFound)
   \<and> (\<forall>e. parseFromUrl env (uri r) = Inl e \<longrightarrow> snd (expand env r) = handleNotFound r)
   \<and> (\<forall>e req. parseFromUrl env (uri r) = Inr req
          \<and> \<not> (truthy (path req) \<and> isVersionPreciseEnough req)
          \<and> allStoredAssets env = Inl e \<longrightarrow> snd (expand env r) = handleNotFound r)
   \<and> (\<forall>e req candidate. parseFromUrl env (uri r) = Inr req \<and> \<not> isVersionPreciseEnough req
          \<and> findBestMatchingCandidate env req = Inr candidate
          \<and> serializeAssetName env candidate = Inl e \<longrightarrow> snd (expand env r) = handleNotFound r)
   \<and> (\<exists>xs. responses (snd (expand env r)) = responses r @ xs
          \<and> xs \<noteq> [] \<and> outcome_of (last xs) \<noteq> None)"
proof -
  obtain res r1 where t: "expand_try env r = (res, r1)"
    by (cases "expand_try env r") auto
  have a: "fst (expand env r) = Inr ()"
    by (simp add: expand_def t split: sum.splits)
  have b: "\<forall>e r1. expand_try env r = (Inl e, r1) \<longrightarrow>
        snd (expand env r) = handleNotFound r1
        \<and> outcome_of (last (responses (snd (expand env r)))) = Some NotFound"
    by (simp add: expand_def responses_handleNotFound)
  have c: "\<forall>e. parseFromUrl env (uri r) = Inl e \<longrightarrow> snd (expand env r) = handleNotFound r"
    by (simp add: expand_def expand_try_def)
  have d: "\<forall>e req. parseFromUrl env (uri r) = Inr req
          \<and> \<not> (truthy (path req) \<and> isVersionPreciseEnough req)
          \<and> allStoredAssets env = Inl e \<longrightarrow> snd (expand env r) = handleNotFound r"
    by (auto simp: expand_def expand_try_def Let_def findBestMatchingCandidate_def
        assetDefaultPath_def)
  have e: "\<forall>e req candidate. parseFromUrl env (uri r) = Inr req \<and> \<not> isVersionPreciseEnough req
          \<and> findBestMatchingCandidate env req = Inr candidate
          \<and> serializeAssetName env candidate = Inl e \<longrightarrow> snd (expand env r) = handleNotFound r"
    by (auto simp: expand_def expand_try_def Let_def computeUriPath_def)
  from expand_try_responses [OF t] obtain xs where
    xs: "responses r1 = responses r @ xs"
    and ok: "\<forall>u. res = Inr u \<longrightarrow> xs \<noteq> [] \<and> outcome_of (last xs) \<noteq> None" by blast
  have f: "\<exists>xs. responses (snd (expand env r)) = responses r @ xs
          \<and> xs \<noteq> [] \<and> outcome_of (last xs) \<noteq> None"
  proof (cases res)
    case (Inl e)
    with t xs have "responses (snd (expand env r)) = responses r @ (xs @ [InternalRedirect ''/404.html''])"
      by (simp add: expand_def responses_handleNotFound)
    then show ?thesis by (intro exI [of _ "xs @ [InternalRedirect ''/404.html'']"]) simp
  next
    case (Inr u)
    with t xs ok show ?thesis by (simp add: expand_def)
  qed
  from a b c d e f show ?thesis by blast
qed

theorem expand_never_throws_witness:
  "fst (expand broken_parser_imports (request ''/bob@1'')) = Inr ()
   \<and> responses (snd (expand broken_parser_imports (request ''/bob@1''))) =
       [InternalRedirect ''/404.html'']
   \<and> responses (snd (expand broken_catalog_imports (request ''/bob@1''))) =
       [InternalRedirect ''/404.html'']
   \<and> responses (snd (expand bob_imports (request ''/bob@3''))) = [InternalRedirect ''/404.html'']"
proof -
  have p0: "parseFromUrl broken_parser_imports (uri (request ''/bob@1'')) = Inl (Exn ''URIError'')"
    by code_simp
  have t0: "expand_try broken_parser_imports (request ''/bob@1'') =
            (Inl (Exn ''URIError''), request ''/bob@1'')"
    by (simp add: expand_try_def p0)
  have p1: "parseFromUrl broken_catalog_imports (uri (request ''/bob@1'')) = Inr (bob (Some 1) None None)"
    and i1: "\<not> (truthy (path (bob (Some 1) None None)) \<and> isVersionPreciseEnough (bob (Some 1) None None))"
    and c1: "allStoredAssets broken_catalog_imports = Inl (Exn ''EIO'')"
    by code_simp+
  have p2: "parseFromUrl bob_imports (uri (request ''/bob@3'')) = Inr (bob (Some 3) None None)"
    and i2: "\<not> isVersionPreciseEnough (bob (Some 3) None None)"
    and f2: "findBestMatchingCandidate bob_imports (bob (Some 3) None None) = Inr None"
    and s2: "serializeAssetName bob_imports None = Inl (Exn ''TypeError'')"
    by code_simp+
  note w0 = expand_never_throws [of broken_parser_imports "request ''/bob@1''"]
  note w1 = expand_never_throws [of broken_catalog_imports "request ''/bob@1''"]
  note w2 = expand_never_throws [of bob_imports "request ''/bob@3''"]
  from w0 have a: "fst (expand broken_parser_imports (request ''/bob@1'')) = Inr ()" by blast
  from w0 t0 p0 have "snd (expand broken_parser_imports (request ''/bob@1'')) =
                   handleNotFound (request ''/bob@1'')" by blast
  then have b: "responses (snd (expand broken_parser_imports (request ''/bob@1''))) =
                [InternalRedirect ''/404.html'']"
    by (simp add: responses_handleNotFound request_def)
  from w1 p1 i1 c1 have "snd (expand broken_catalog_imports (request ''/bob@1'')) =
                   handleNotFound (request ''/bob@1'')" by blast
  then have c: "responses (snd (expand broken_catalog_imports (request ''/bob@1''))) =
                [InternalRedirect ''/404.html'']"
    by (simp add: responses_handleNotFound request_def)
  from w2 p2 i2 f2 s2 have "snd (expand bob_imports (request ''/bob@3'')) =
                   handleNotFound (request ''/bob@3'')" by blast
  then have d: "responses (snd (expand bob_imports (request ''/bob@3''))) =
                [InternalRedirect ''/404.html'']"
    by (simp add: responses_handleNotFound request_def)
  from a b c d show ?thesis by simp
qed

subsection \<open>The number of responses\<close>

text \<open>
  Off the minification branch \<open>expand\<close> makes one response. On it, the block that serves
  the minified text does not return, and control reaches the test of \<open>serveFiles\<close> that
  follows.
\<close>

lemma expand_one_response:
  assumes "\<not> isMinificationRequested (uri r)"
  shows "\<exists>x. responses (snd (expand env r)) = responses r @ [x]"
proof (cases "parseFromUrl env (uri r)")
  case (Inl e)
  then show ?thesis by (simp add: expand_def expand_try_def responses_handleNotFound)
next
  case (Inr req)
  with assms show ?thesis
    by (auto simp: expand_def expand_try_def Let_def responses_handleNotFound
        responses_redirectOrResolve responses_r_return split: sum.splits if_splits)
qed

lemma expand_minified_two_responses:
  assumes "parseFromUrl env (uri r) = Inr req"
    and "truthy (path req)" and "isVersionPreciseEnough req"
    and "isMinificationRequested (uri r)"
    and "expand_minification env r = (Inr (), r1)"
  shows "\<exists>body x. responses (snd (expand env r)) = responses r @ [Return 200 body, x]"
proof -
  from expand_minification_effect [OF assms(5)] obtain body where
    b: "responses r1 = responses r @ [Return 200 body]" by auto
  with assms show ?thesis
    by (auto simp: expand_def expand_try_def Let_def responses_handleNotFound
        responses_r_return split: sum.splits)
qed

text \<open>
  Claim C6, at the request \<open>/bob@1.3.3/dist/index.min.js\<close> with \<open>serveFiles\<close> unset and a
  volume that holds \<open>dist/index.js\<close> only: \<open>expand\<close> serves the minified source with
  status 200 and then makes the internal redirect to \<open>/404.html\<close>, two responses for one
  request.
\<close>

theorem expand_minified_responds_twice:
  "responses (snd (expand bob_imports (request ''/bob@1.3.3/dist/index.min.js''))) =
     [Return 200 ''let a = 1'', InternalRedirect ''/404.html'']"
  by code_simp

end
